theory Spec2Isabelle
  imports Main "HOL-Library.Word"
begin

section \<open>Machine model\<close>

text \<open>
  The kernels of polynomial_multiplication work on caller-owned arrays of \<^verbatim>\<open>int\<close>,
  indexed by \<^verbatim>\<open>size_t\<close>.

  \<^item> A coefficient (\<^verbatim>\<open>int\<close>) is a 32-bit word: \<open>+\<close> and \<open>*\<close> wrap around, and
    \<open>sint\<close> reads a word as the signed value.
  \<^item> A coefficient array is a list. The input arrays are \<^verbatim>\<open>const int *\<close> and are
    distinct from the output array, so they are passed unchanged, and the output array
    is passed in and returned. The one call that may be given the output array as its
    input array too, \<^verbatim>\<open>Scaled_AddTo\<close>, has a second model for that case,
    \<open>Scaled_AddTo_same\<close>, in which both pointers address the one list.
  \<^item> The source performs no bounds check; an access outside an array is undefined
    behaviour. Here every access is checked against the length of the list and an
    access out of range ends the run with \<open>Inl OutOfBounds\<close>, so that "the run returns
    \<open>Inr\<close>" says that every access was in range.
  \<^item> A \<^verbatim>\<open>size_t\<close> is a natural number below \<open>2 ^ 64\<close>. The subtractions of the source
    are \<open>size_sub\<close>, subtraction modulo \<open>2 ^ 64\<close> on such numbers (so \<^verbatim>\<open>A_len - one\<close>
    is \<^verbatim>\<open>SIZE_MAX\<close> at \<^verbatim>\<open>A_len = 0\<close>, and \<^verbatim>\<open>n - m\<close> is huge when \<^verbatim>\<open>m\<close> exceeds
    \<^verbatim>\<open>n\<close>). Sums and increments are written with \<open>+\<close> on \<open>nat\<close>: every index that is
    incremented has just been used in a checked access, and every bound that is added
    to is at most an index so used, so on arrays of fewer than \<open>2 ^ 63\<close> entries
    (an \<^verbatim>\<open>int\<close> array in a 64-bit address space has fewer than \<open>2 ^ 62\<close>) a sum could
    exceed \<^verbatim>\<open>SIZE_MAX\<close> only after the run has ended with \<open>OutOfBounds\<close>.
  \<^item> Overflow of \<^verbatim>\<open>int\<close> arithmetic wraps, as the words do.
\<close>

type_synonym cint = "32 word"

type_synonym coeffs = "cint list"

datatype error = OutOfBounds

definition ebind :: "error + 'a \<Rightarrow> ('a \<Rightarrow> error + 'b) \<Rightarrow> error + 'b" where
  "ebind r f = (case r of Inl e \<Rightarrow> Inl e | Inr x \<Rightarrow> f x)"

definition load :: "coeffs \<Rightarrow> nat \<Rightarrow> error + cint" where
  "load xs i = (if i < length xs then Inr (xs ! i) else Inl OutOfBounds)"

definition store :: "coeffs \<Rightarrow> nat \<Rightarrow> cint \<Rightarrow> error + coeffs" where
  "store xs i v = (if i < length xs then Inr (xs[i := v]) else Inl OutOfBounds)"

definition size_sub :: "nat \<Rightarrow> nat \<Rightarrow> nat" where
  "size_sub a b = (if b \<le> a then a - b else a + 2 ^ 64 - b)"


section \<open>Scaled_AddTo\<close>

text \<open>
  \<^verbatim>\<open>for (n = zero; n < len; ++n) P_coeffs[n] += scalar * A_coeffs[n];\<close>
\<close>

function Scaled_AddTo_loop :: "coeffs \<Rightarrow> coeffs \<Rightarrow> nat \<Rightarrow> nat \<Rightarrow> cint \<Rightarrow> error + coeffs" where
  "Scaled_AddTo_loop P_coeffs A_coeffs n len scalar =
     (if n < len then
        ebind (load P_coeffs n) (\<lambda>p.
        ebind (load A_coeffs n) (\<lambda>a.
        ebind (store P_coeffs n (p + scalar * a)) (\<lambda>P1.
        Scaled_AddTo_loop P1 A_coeffs (n + 1) len scalar)))
      else Inr P_coeffs)"
  by pat_completeness auto
termination
  by (relation "measure (\<lambda>(P_coeffs, A_coeffs, n, len, scalar). len - n)") auto

definition Scaled_AddTo :: "coeffs \<Rightarrow> coeffs \<Rightarrow> nat \<Rightarrow> cint \<Rightarrow> error + coeffs" where
  "Scaled_AddTo P_coeffs A_coeffs len scalar = Scaled_AddTo_loop P_coeffs A_coeffs 0 len scalar"

text \<open>
  The same loop when the caller passes one array as both \<^verbatim>\<open>P_coeffs\<close> and
  \<^verbatim>\<open>A_coeffs\<close>: the read of \<^verbatim>\<open>A_coeffs[n]\<close> is a read of the array being written.
\<close>

function Scaled_AddTo_same_loop :: "coeffs \<Rightarrow> nat \<Rightarrow> nat \<Rightarrow> cint \<Rightarrow> error + coeffs" where
  "Scaled_AddTo_same_loop P_coeffs n len scalar =
     (if n < len then
        ebind (load P_coeffs n) (\<lambda>p.
        ebind (load P_coeffs n) (\<lambda>a.
        ebind (store P_coeffs n (p + scalar * a)) (\<lambda>P1.
        Scaled_AddTo_same_loop P1 (n + 1) len scalar)))
      else Inr P_coeffs)"
  by pat_completeness auto
termination
  by (relation "measure (\<lambda>(P_coeffs, n, len, scalar). len - n)") auto

definition Scaled_AddTo_same :: "coeffs \<Rightarrow> nat \<Rightarrow> cint \<Rightarrow> error + coeffs" where
  "Scaled_AddTo_same P_coeffs len scalar = Scaled_AddTo_same_loop P_coeffs 0 len scalar"


section \<open>Naive_Product\<close>

text \<open>
  The statement \<^verbatim>\<open>P_coeffs[n] = A_coeffs[i] * B_coeffs[j];\<close> that opens each output
  index, and the inner loop
  \<^verbatim>\<open>for (m = m0; m <= hi; ++m) P_coeffs[n] += A_coeffs[m] * B_coeffs[n - m];\<close>
  which the three parts run with different bounds.
\<close>

definition Product_assign :: "coeffs \<Rightarrow> coeffs \<Rightarrow> coeffs \<Rightarrow> nat \<Rightarrow> nat \<Rightarrow> nat \<Rightarrow> error + coeffs" where
  "Product_assign P_coeffs A_coeffs B_coeffs n i j =
     ebind (load A_coeffs i) (\<lambda>a.
     ebind (load B_coeffs j) (\<lambda>b.
     store P_coeffs n (a * b)))"

function Product_inner :: "coeffs \<Rightarrow> coeffs \<Rightarrow> coeffs \<Rightarrow> nat \<Rightarrow> nat \<Rightarrow> nat \<Rightarrow> error + coeffs" where
  "Product_inner P_coeffs A_coeffs B_coeffs n m hi =
     (if m \<le> hi then
        ebind (load P_coeffs n) (\<lambda>p.
        ebind (load A_coeffs m) (\<lambda>a.
        ebind (load B_coeffs (size_sub n m)) (\<lambda>b.
        ebind (store P_coeffs n (p + a * b)) (\<lambda>P1.
        Product_inner P1 A_coeffs B_coeffs n (m + 1) hi))))
      else Inr P_coeffs)"
  by pat_completeness auto
termination
  by (relation "measure (\<lambda>(P_coeffs, A_coeffs, B_coeffs, n, m, hi). Suc hi - m)") auto

text \<open>First part: \<^verbatim>\<open>for (n = zero; n <= A_deg; ++n)\<close>.\<close>

function Product_part1 :: "coeffs \<Rightarrow> coeffs \<Rightarrow> coeffs \<Rightarrow> nat \<Rightarrow> nat \<Rightarrow> error + coeffs" where
  "Product_part1 P_coeffs A_coeffs B_coeffs n A_deg =
     (if n \<le> A_deg then
        ebind (Product_assign P_coeffs A_coeffs B_coeffs n 0 n) (\<lambda>P1.
        ebind (Product_inner P1 A_coeffs B_coeffs n 1 n) (\<lambda>P2.
        Product_part1 P2 A_coeffs B_coeffs (n + 1) A_deg))
      else Inr P_coeffs)"
  by pat_completeness auto
termination
  by (relation "measure (\<lambda>(P_coeffs, A_coeffs, B_coeffs, n, A_deg). Suc A_deg - n)") auto

text \<open>Second part: \<^verbatim>\<open>for (n = A_deg + one; n <= B_deg; ++n)\<close>.\<close>

function Product_part2 :: "coeffs \<Rightarrow> coeffs \<Rightarrow> coeffs \<Rightarrow> nat \<Rightarrow> nat \<Rightarrow> nat \<Rightarrow> error + coeffs" where
  "Product_part2 P_coeffs A_coeffs B_coeffs n A_deg B_deg =
     (if n \<le> B_deg then
        ebind (Product_assign P_coeffs A_coeffs B_coeffs n 0 n) (\<lambda>P1.
        ebind (Product_inner P1 A_coeffs B_coeffs n 1 A_deg) (\<lambda>P2.
        Product_part2 P2 A_coeffs B_coeffs (n + 1) A_deg B_deg))
      else Inr P_coeffs)"
  by pat_completeness auto
termination
  by (relation "measure (\<lambda>(P_coeffs, A_coeffs, B_coeffs, n, A_deg, B_deg). Suc B_deg - n)") auto

text \<open>
  Third part: \<^verbatim>\<open>for (n = B_deg + one; n <= A_deg + B_deg; ++n)\<close>, with
  \<^verbatim>\<open>m = n - B_deg\<close> the first index into \<^verbatim>\<open>A_coeffs\<close>.
\<close>

function Product_part3 :: "coeffs \<Rightarrow> coeffs \<Rightarrow> coeffs \<Rightarrow> nat \<Rightarrow> nat \<Rightarrow> nat \<Rightarrow> error + coeffs" where
  "Product_part3 P_coeffs A_coeffs B_coeffs n A_deg B_deg =
     (if n \<le> A_deg + B_deg then
        (let m = size_sub n B_deg in
         ebind (Product_assign P_coeffs A_coeffs B_coeffs n m B_deg) (\<lambda>P1.
         ebind (Product_inner P1 A_coeffs B_coeffs n (m + 1) A_deg) (\<lambda>P2.
         Product_part3 P2 A_coeffs B_coeffs (n + 1) A_deg B_deg)))
      else Inr P_coeffs)"
  by pat_completeness auto
termination
  by (relation "measure (\<lambda>(P_coeffs, A_coeffs, B_coeffs, n, A_deg, B_deg). Suc (A_deg + B_deg) - n)") auto

definition Naive_Product :: "coeffs \<Rightarrow> coeffs \<Rightarrow> nat \<Rightarrow> coeffs \<Rightarrow> nat \<Rightarrow> error + coeffs" where
  "Naive_Product P_coeffs A_coeffs A_len B_coeffs B_len =
     (let A_deg = size_sub A_len 1;
          B_deg = size_sub B_len 1
      in ebind (Product_part1 P_coeffs A_coeffs B_coeffs 0 A_deg) (\<lambda>P1.
         ebind (Product_part2 P1 A_coeffs B_coeffs (A_deg + 1) A_deg B_deg) (\<lambda>P2.
         Product_part3 P2 A_coeffs B_coeffs (B_deg + 1) A_deg B_deg)))"


section \<open>Naive_AddTo_Sum_Product\<close>

text \<open>
  The same sweep with the term \<^verbatim>\<open>(A0_coeffs[m] + A1_coeffs[m]) * B_coeffs[n - m]\<close>.
  The first part only adds into \<^verbatim>\<open>P_coeffs[n]\<close>, with the inner loop starting at
  \<^verbatim>\<open>m = zero\<close>; the second and third parts open each output index with an assignment,
  as \<^verbatim>\<open>Naive_Product\<close> does.
\<close>

definition Sum_Product_assign ::
  "coeffs \<Rightarrow> coeffs \<Rightarrow> coeffs \<Rightarrow> coeffs \<Rightarrow> nat \<Rightarrow> nat \<Rightarrow> nat \<Rightarrow> error + coeffs" where
  "Sum_Product_assign P_coeffs A0_coeffs A1_coeffs B_coeffs n i j =
     ebind (load A0_coeffs i) (\<lambda>a0.
     ebind (load A1_coeffs i) (\<lambda>a1.
     ebind (load B_coeffs j) (\<lambda>b.
     store P_coeffs n ((a0 + a1) * b))))"

function Sum_Product_inner ::
  "coeffs \<Rightarrow> coeffs \<Rightarrow> coeffs \<Rightarrow> coeffs \<Rightarrow> nat \<Rightarrow> nat \<Rightarrow> nat \<Rightarrow> error + coeffs" where
  "Sum_Product_inner P_coeffs A0_coeffs A1_coeffs B_coeffs n m hi =
     (if m \<le> hi then
        ebind (load P_coeffs n) (\<lambda>p.
        ebind (load A0_coeffs m) (\<lambda>a0.
        ebind (load A1_coeffs m) (\<lambda>a1.
        ebind (load B_coeffs (size_sub n m)) (\<lambda>b.
        ebind (store P_coeffs n (p + (a0 + a1) * b)) (\<lambda>P1.
        Sum_Product_inner P1 A0_coeffs A1_coeffs B_coeffs n (m + 1) hi)))))
      else Inr P_coeffs)"
  by pat_completeness auto
termination
  by (relation "measure (\<lambda>(P_coeffs, A0_coeffs, A1_coeffs, B_coeffs, n, m, hi). Suc hi - m)") auto

function Sum_Product_part1 ::
  "coeffs \<Rightarrow> coeffs \<Rightarrow> coeffs \<Rightarrow> coeffs \<Rightarrow> nat \<Rightarrow> nat \<Rightarrow> error + coeffs" where
  "Sum_Product_part1 P_coeffs A0_coeffs A1_coeffs B_coeffs n A_deg =
     (if n \<le> A_deg then
        ebind (Sum_Product_inner P_coeffs A0_coeffs A1_coeffs B_coeffs n 0 n) (\<lambda>P1.
        Sum_Product_part1 P1 A0_coeffs A1_coeffs B_coeffs (n + 1) A_deg)
      else Inr P_coeffs)"
  by pat_completeness auto
termination
  by (relation "measure (\<lambda>(P_coeffs, A0_coeffs, A1_coeffs, B_coeffs, n, A_deg). Suc A_deg - n)") auto

function Sum_Product_part2 ::
  "coeffs \<Rightarrow> coeffs \<Rightarrow> coeffs \<Rightarrow> coeffs \<Rightarrow> nat \<Rightarrow> nat \<Rightarrow> nat \<Rightarrow> error + coeffs" where
  "Sum_Product_part2 P_coeffs A0_coeffs A1_coeffs B_coeffs n A_deg B_deg =
     (if n \<le> B_deg then
        ebind (Sum_Product_assign P_coeffs A0_coeffs A1_coeffs B_coeffs n 0 n) (\<lambda>P1.
        ebind (Sum_Product_inner P1 A0_coeffs A1_coeffs B_coeffs n 1 A_deg) (\<lambda>P2.
        Sum_Product_part2 P2 A0_coeffs A1_coeffs B_coeffs (n + 1) A_deg B_deg))
      else Inr P_coeffs)"
  by pat_completeness auto
termination
  by (relation "measure (\<lambda>(P_coeffs, A0_coeffs, A1_coeffs, B_coeffs, n, A_deg, B_deg). Suc B_deg - n)") auto

function Sum_Product_part3 ::
  "coeffs \<Rightarrow> coeffs \<Rightarrow> coeffs \<Rightarrow> coeffs \<Rightarrow> nat \<Rightarrow> nat \<Rightarrow> nat \<Rightarrow> error + coeffs" where
  "Sum_Product_part3 P_coeffs A0_coeffs A1_coeffs B_coeffs n A_deg B_deg =
     (if n \<le> A_deg + B_deg then
        (let m = size_sub n B_deg in
         ebind (Sum_Product_assign P_coeffs A0_coeffs A1_coeffs B_coeffs n m B_deg) (\<lambda>P1.
         ebind (Sum_Product_inner P1 A0_coeffs A1_coeffs B_coeffs n (m + 1) A_deg) (\<lambda>P2.
         Sum_Product_part3 P2 A0_coeffs A1_coeffs B_coeffs (n + 1) A_deg B_deg)))
      else Inr P_coeffs)"
  by pat_completeness auto
termination
  by (relation "measure (\<lambda>(P_coeffs, A0_coeffs, A1_coeffs, B_coeffs, n, A_deg, B_deg). Suc (A_deg + B_deg) - n)") auto

definition Naive_AddTo_Sum_Product ::
  "coeffs \<Rightarrow> coeffs \<Rightarrow> coeffs \<Rightarrow> nat \<Rightarrow> coeffs \<Rightarrow> nat \<Rightarrow> error + coeffs" where
  "Naive_AddTo_Sum_Product P_coeffs A0_coeffs A1_coeffs A_len B_coeffs B_len =
     (let A_deg = size_sub A_len 1;
          B_deg = size_sub B_len 1
      in ebind (Sum_Product_part1 P_coeffs A0_coeffs A1_coeffs B_coeffs 0 A_deg) (\<lambda>P1.
         ebind (Sum_Product_part2 P1 A0_coeffs A1_coeffs B_coeffs (A_deg + 1) A_deg B_deg) (\<lambda>P2.
         Sum_Product_part3 P2 A0_coeffs A1_coeffs B_coeffs (B_deg + 1) A_deg B_deg)))"


section \<open>The Cauchy product\<close>

text \<open>
  The coefficient of degree \<open>n\<close> of the product: the sum of \<open>A[i] * B[j]\<close> over the
  pairs with \<open>i + j = n\<close>, \<open>i\<close> an index of \<open>A\<close> and \<open>j\<close> an index of \<open>B\<close>.
\<close>

definition Cauchy :: "coeffs \<Rightarrow> coeffs \<Rightarrow> nat \<Rightarrow> cint" where
  "Cauchy A B n = (\<Sum>i<length A. \<Sum>j<length B. if i + j = n then A ! i * B ! j else 0)"

text \<open>
  A buffer whose entries at the indices \<open>lo \<le> k < hi\<close> are replaced by \<open>f k\<close>: the
  shape of the output array after a sweep over those indices.
\<close>

definition overwrite :: "(nat \<Rightarrow> cint) \<Rightarrow> nat \<Rightarrow> nat \<Rightarrow> coeffs \<Rightarrow> coeffs" where
  "overwrite f lo hi P = map (\<lambda>k. if lo \<le> k \<and> k < hi then f k else P ! k) [0..<length P]"

text \<open>
  The loops are unfolded by hand, one iteration at a time.
\<close>

declare Scaled_AddTo_loop.simps [simp del] Scaled_AddTo_same_loop.simps [simp del]
  Product_inner.simps [simp del]
  Product_part1.simps [simp del] Product_part2.simps [simp del] Product_part3.simps [simp del]
  Sum_Product_inner.simps [simp del] Sum_Product_part1.simps [simp del]
  Sum_Product_part2.simps [simp del] Sum_Product_part3.simps [simp del]


section \<open>Basic facts about the machine model\<close>

lemma ebind_Inr [simp]: "ebind (Inr x) f = f x"
  by (simp add: ebind_def)

lemma ebind_Inl [simp]: "ebind (Inl e) f = Inl e"
  by (simp add: ebind_def)

lemma load_in_range [simp]: "i < length xs \<Longrightarrow> load xs i = Inr (xs ! i)"
  by (simp add: load_def)

lemma load_out_of_range [simp]: "length xs \<le> i \<Longrightarrow> load xs i = Inl OutOfBounds"
  by (simp add: load_def)

lemma store_in_range [simp]: "i < length xs \<Longrightarrow> store xs i v = Inr (xs[i := v])"
  by (simp add: store_def)

lemma size_sub_le [simp]: "b \<le> a \<Longrightarrow> size_sub a b = a - b"
  by (simp add: size_sub_def)

lemma ebind_assoc: "ebind (ebind r f) g = ebind r (\<lambda>x. ebind (f x) g)"
  by (simp add: ebind_def split: sum.splits)

lemma length_overwrite [simp]: "length (overwrite f lo hi P) = length P"
  by (simp add: overwrite_def)

lemma nth_overwrite [simp]:
  "k < length P \<Longrightarrow> overwrite f lo hi P ! k = (if lo \<le> k \<and> k < hi then f k else P ! k)"
  by (simp add: overwrite_def)

lemma overwrite_empty: "hi \<le> lo \<Longrightarrow> overwrite f lo hi P = P"
  by (rule nth_equalityI) auto

lemma overwrite_step:
  "n < length P \<Longrightarrow> n < hi \<Longrightarrow> overwrite f (Suc n) hi (P[n := f n]) = overwrite f n hi P"
  by (rule nth_equalityI) (auto simp: nth_list_update)

lemma overwrite_overwrite:
  "a \<le> b \<Longrightarrow> b \<le> c \<Longrightarrow> overwrite f b c (overwrite f a b P) = overwrite f a c P"
  by (rule nth_equalityI) auto


lemma overwrite_take:
  assumes "hi \<le> N" and "N \<le> length P"
  shows "overwrite f lo hi (take N P) @ drop N P = overwrite f lo hi P"
  using assms by (intro nth_equalityI) (auto simp: nth_append)

lemma error_unique: "(e :: error) = OutOfBounds"
  by (cases e) simp

lemma ebind_fails:
  assumes "\<And>x. f x = Inl OutOfBounds"
  shows "ebind r f = Inl OutOfBounds"
proof (cases r)
  case (Inl e)
  then show ?thesis using error_unique [of e] by simp
next
  case (Inr x)
  then show ?thesis using assms by simp
qed


section \<open>The Cauchy product as a band sum\<close>

lemma Cauchy_inner:
  "(\<Sum>j<length B. if i + j = n then A ! i * B ! j else 0)
     = (if i \<le> n \<and> n - i < length B then A ! i * B ! (n - i) else (0::cint))"
proof (cases "i \<le> n")
  case True
  then have "\<And>j. (i + j = n) = (j = n - i)" by auto
  then have "(\<Sum>j<length B. if i + j = n then A ! i * B ! j else 0)
      = (\<Sum>j\<in>{..<length B}. if j = n - i then A ! i * B ! j else 0)" by simp
  also have "\<dots> = (if n - i \<in> {..<length B} then A ! i * B ! (n - i) else 0)"
    by (rule sum.delta) simp
  finally show ?thesis using True by simp
next
  case False
  then have "\<And>j. i + j \<noteq> n" by auto
  then show ?thesis using False by simp
qed

lemma Cauchy_band:
  assumes "1 \<le> length A" and "1 \<le> length B"
  shows "Cauchy A B n = (\<Sum>i = n - (length B - 1)..min n (length A - 1). A ! i * B ! (n - i))"
proof -
  have "Cauchy A B n
      = (\<Sum>i\<in>{..<length A}. if i \<le> n \<and> n - i < length B then A ! i * B ! (n - i) else 0)"
    by (simp add: Cauchy_def Cauchy_inner)
  also have "\<dots> = (\<Sum>i\<in>{i \<in> {..<length A}. i \<le> n \<and> n - i < length B}. A ! i * B ! (n - i))"
    by (rule sum.inter_filter [symmetric]) simp
  also have "{i \<in> {..<length A}. i \<le> n \<and> n - i < length B}
      = {n - (length B - 1)..min n (length A - 1)}"
    using assms by auto
  finally show ?thesis .
qed

lemma Cauchy_commute: "Cauchy A B n = Cauchy B A n"
proof -
  have "Cauchy A B n = (\<Sum>j<length B. \<Sum>i<length A. if i + j = n then A ! i * B ! j else 0)"
    unfolding Cauchy_def by (rule sum.swap)
  also have "\<dots> = Cauchy B A n"
    unfolding Cauchy_def by (simp add: add.commute mult.commute cong: if_cong)
  finally show ?thesis .
qed


lemma Cauchy_leading:
  assumes "1 \<le> length A" and "1 \<le> length B"
  shows "Cauchy A B (length A + length B - 2) = A ! (length A - 1) * B ! (length B - 1)"
proof -
  have "length A + length B - 2 - (length B - 1) = length A - 1"
    "min (length A + length B - 2) (length A - 1) = length A - 1"
    "length A + length B - 2 - (length A - 1) = length B - 1"
    using assms by simp_all
  then show ?thesis
    using Cauchy_band [OF assms, of "length A + length B - 2"] by simp
qed

lemma cint_mult_eq_0_iff: "(a * b = 0) = (2 ^ 32 dvd sint a * sint b)" for a b :: cint
proof -
  have "a * b = word_of_int (sint a * sint b)" by simp
  then show ?thesis by (simp only: word_of_int_eq_0_iff) simp
qed


section \<open>Naive_Product computes the Cauchy product\<close>

lemma Product_inner_done: "hi < m \<Longrightarrow> Product_inner P A B n m hi = Inr P"
  by (subst Product_inner.simps) simp

lemma Product_inner_sum:
  assumes "n < length P"
    and "\<And>i. m \<le> i \<Longrightarrow> i \<le> hi \<Longrightarrow> i < length A \<and> i \<le> n \<and> n - i < length B"
  shows "Product_inner P A B n m hi = Inr (P[n := P ! n + (\<Sum>i = m..hi. A ! i * B ! (n - i))])"
  using assms
proof (induction "Suc hi - m" arbitrary: m P)
  case 0
  then show ?case by (simp add: Product_inner_done)
next
  case (Suc k)
  then have mhi: "m \<le> hi" by simp
  have rng: "m < length A" "m \<le> n" "n - m < length B"
    using Suc.prems(2) [of m] mhi by simp_all
  have k: "k = Suc hi - (m + 1)" using Suc.hyps(2) by simp
  let ?P1 = "P[n := P ! n + A ! m * B ! (n - m)]"
  have step: "Product_inner P A B n m hi = Product_inner ?P1 A B n (m + 1) hi"
    by (subst Product_inner.simps) (simp add: mhi rng Suc.prems(1))
  have "Product_inner ?P1 A B n (m + 1) hi
      = Inr (?P1[n := ?P1 ! n + (\<Sum>i = m + 1..hi. A ! i * B ! (n - i))])"
    by (rule Suc.hyps(1) [OF k]) (use Suc.prems in simp_all)
  moreover have "(\<Sum>i = m..hi. A ! i * B ! (n - i))
      = A ! m * B ! (n - m) + (\<Sum>i = m + 1..hi. A ! i * B ! (n - i))"
    using mhi by (simp add: sum.atLeast_Suc_atMost)
  ultimately show ?case
    using step Suc.prems(1) by (simp add: add.assoc)
qed

lemma Product_index:
  assumes "n < length P" and "lo \<le> hi" and "hi < length A" and "hi \<le> n" and "n - lo < length B"
  shows "ebind (Product_assign P A B n lo (n - lo)) (\<lambda>P1. Product_inner P1 A B n (lo + 1) hi)
       = Inr (P[n := (\<Sum>i = lo..hi. A ! i * B ! (n - i))])"
proof -
  let ?P1 = "P[n := A ! lo * B ! (n - lo)]"
  have "Product_assign P A B n lo (n - lo) = Inr ?P1"
    using assms by (simp add: Product_assign_def)
  moreover have "Product_inner ?P1 A B n (lo + 1) hi
      = Inr (?P1[n := ?P1 ! n + (\<Sum>i = lo + 1..hi. A ! i * B ! (n - i))])"
    by (rule Product_inner_sum) (use assms in auto)
  moreover have "(\<Sum>i = lo..hi. A ! i * B ! (n - i))
      = A ! lo * B ! (n - lo) + (\<Sum>i = lo + 1..hi. A ! i * B ! (n - i))"
    using assms(2) by (simp add: sum.atLeast_Suc_atMost)
  ultimately show ?thesis using assms(1) by simp
qed

lemma Product_part1_Cauchy:
  assumes "1 \<le> length A" and "length A \<le> length B" and "length A \<le> length P"
  shows "Product_part1 P A B n (length A - 1) = Inr (overwrite (Cauchy A B) n (length A) P)"
  using assms(3)
proof (induction "length A - n" arbitrary: n P)
  case 0
  then have "\<not> n \<le> length A - 1" using assms(1) by simp
  then show ?case using 0 by (subst Product_part1.simps) (simp add: overwrite_empty)
next
  case (Suc k)
  then have n: "n < length A" by simp
  then have nle: "n \<le> length A - 1" by arith
  have c: "Cauchy A B n = (\<Sum>i = 0..n. A ! i * B ! (n - i))"
    using assms(1,2) n by (simp add: Cauchy_band min_def)
  have "ebind (Product_assign P A B n 0 (n - 0)) (\<lambda>P1. Product_inner P1 A B n (0 + 1) n)
      = Inr (P[n := (\<Sum>i = 0..n. A ! i * B ! (n - i))])"
    by (rule Product_index) (use n assms(2) Suc.prems in simp_all)
  then have body: "ebind (Product_assign P A B n 0 n) (\<lambda>P1. Product_inner P1 A B n 1 n)
      = Inr (P[n := Cauchy A B n])"
    by (simp add: c)
  have "Product_part1 P A B n (length A - 1)
      = ebind (ebind (Product_assign P A B n 0 n) (\<lambda>P1. Product_inner P1 A B n 1 n))
          (\<lambda>P2. Product_part1 P2 A B (n + 1) (length A - 1))"
    by (subst Product_part1.simps) (use nle in \<open>simp add: ebind_assoc\<close>)
  also have "\<dots> = Product_part1 (P[n := Cauchy A B n]) A B (n + 1) (length A - 1)"
    by (simp only: body ebind_Inr)
  also have "\<dots> = Inr (overwrite (Cauchy A B) (n + 1) (length A) (P[n := Cauchy A B n]))"
    by (rule Suc.hyps(1)) (use Suc.hyps(2) Suc.prems in simp_all)
  also have "\<dots> = Inr (overwrite (Cauchy A B) n (length A) P)"
    using n Suc.prems by (simp add: overwrite_step)
  finally show ?case .
qed

lemma Product_part2_Cauchy:
  assumes "1 \<le> length A" and "length A \<le> length B" and "length B \<le> length P"
    and "length A \<le> n"
  shows "Product_part2 P A B n (length A - 1) (length B - 1)
       = Inr (overwrite (Cauchy A B) n (length B) P)"
  using assms(3,4)
proof (induction "length B - n" arbitrary: n P)
  case 0
  then have "\<not> n \<le> length B - 1" using assms(1,2) by simp
  then show ?case using 0 by (subst Product_part2.simps) (simp add: overwrite_empty)
next
  case (Suc k)
  then have n: "n < length B" by simp
  then have nle: "n \<le> length B - 1" by arith
  have c: "Cauchy A B n = (\<Sum>i = 0..length A - 1. A ! i * B ! (n - i))"
    using assms(1,2) n Suc.prems(2) by (simp add: Cauchy_band min_def)
  have "ebind (Product_assign P A B n 0 (n - 0)) (\<lambda>P1. Product_inner P1 A B n (0 + 1) (length A - 1))
      = Inr (P[n := (\<Sum>i = 0..length A - 1. A ! i * B ! (n - i))])"
    by (rule Product_index) (use n assms(1) Suc.prems in simp_all)
  then have body: "ebind (Product_assign P A B n 0 n) (\<lambda>P1. Product_inner P1 A B n 1 (length A - 1))
      = Inr (P[n := Cauchy A B n])"
    by (simp add: c)
  have "Product_part2 P A B n (length A - 1) (length B - 1)
      = ebind (ebind (Product_assign P A B n 0 n) (\<lambda>P1. Product_inner P1 A B n 1 (length A - 1)))
          (\<lambda>P2. Product_part2 P2 A B (n + 1) (length A - 1) (length B - 1))"
    by (subst Product_part2.simps) (use nle in \<open>simp add: ebind_assoc\<close>)
  also have "\<dots> = Product_part2 (P[n := Cauchy A B n]) A B (n + 1) (length A - 1) (length B - 1)"
    by (simp only: body ebind_Inr)
  also have "\<dots> = Inr (overwrite (Cauchy A B) (n + 1) (length B) (P[n := Cauchy A B n]))"
    by (rule Suc.hyps(1)) (use Suc.hyps(2) Suc.prems in simp_all)
  also have "\<dots> = Inr (overwrite (Cauchy A B) n (length B) P)"
    using n Suc.prems by (simp add: overwrite_step)
  finally show ?case .
qed

lemma Product_part3_Cauchy:
  assumes "1 \<le> length A" and "length A \<le> length B" and "length A + length B - 1 \<le> length P"
    and "length B \<le> n"
  shows "Product_part3 P A B n (length A - 1) (length B - 1)
       = Inr (overwrite (Cauchy A B) n (length A + length B - 1) P)"
  using assms(3,4)
proof (induction "length A + length B - 1 - n" arbitrary: n P)
  case 0
  then have "\<not> n \<le> length A - 1 + (length B - 1)" using assms(1,2) by simp
  then show ?case using 0 by (subst Product_part3.simps) (simp add: overwrite_empty)
next
  case (Suc k)
  then have n: "n < length A + length B - 1" by simp
  then have nle: "n \<le> length A - 1 + (length B - 1)" by arith
  define lo where "lo = n - (length B - 1)"
  have lo: "size_sub n (length B - 1) = lo" "length B - 1 = n - lo" "lo \<le> length A - 1"
    using Suc.prems(2) n assms(1,2) by (simp_all add: lo_def)
  have c: "Cauchy A B n = (\<Sum>i = lo..length A - 1. A ! i * B ! (n - i))"
    using assms(1,2) n Suc.prems(2) by (simp add: Cauchy_band min_def lo_def)
  have "ebind (Product_assign P A B n lo (n - lo)) (\<lambda>P1. Product_inner P1 A B n (lo + 1) (length A - 1))
      = Inr (P[n := (\<Sum>i = lo..length A - 1. A ! i * B ! (n - i))])"
    by (rule Product_index) (use n assms(1,2) Suc.prems lo in \<open>simp_all add: lo_def\<close>)
  then have body: "ebind (Product_assign P A B n lo (n - lo)) (\<lambda>P1. Product_inner P1 A B n (lo + 1) (length A - 1))
      = Inr (P[n := Cauchy A B n])"
    by (simp add: c)
  have "Product_part3 P A B n (length A - 1) (length B - 1)
      = ebind (ebind (Product_assign P A B n lo (length B - 1)) (\<lambda>P1. Product_inner P1 A B n (lo + 1) (length A - 1)))
          (\<lambda>P2. Product_part3 P2 A B (n + 1) (length A - 1) (length B - 1))"
    by (subst Product_part3.simps) (use nle lo(1) in \<open>simp add: ebind_assoc Let_def\<close>)
  also have "\<dots> = ebind (ebind (Product_assign P A B n lo (n - lo)) (\<lambda>P1. Product_inner P1 A B n (lo + 1) (length A - 1)))
          (\<lambda>P2. Product_part3 P2 A B (n + 1) (length A - 1) (length B - 1))"
    using lo(2) by simp
  also have "\<dots> = Product_part3 (P[n := Cauchy A B n]) A B (n + 1) (length A - 1) (length B - 1)"
    by (simp only: body ebind_Inr)
  also have "\<dots> = Inr (overwrite (Cauchy A B) (n + 1) (length A + length B - 1) (P[n := Cauchy A B n]))"
    by (rule Suc.hyps(1)) (use Suc.hyps(2) Suc.prems in simp_all)
  also have "\<dots> = Inr (overwrite (Cauchy A B) n (length A + length B - 1) P)"
    using n Suc.prems by (simp add: overwrite_step)
  finally show ?case .
qed

lemma Naive_Product_overwrite:
  assumes "length A = A_len" and "length B = B_len" and "1 \<le> A_len" and "A_len \<le> B_len"
    and "A_len + B_len - 1 \<le> length P"
  shows "Naive_Product P A A_len B B_len = Inr (overwrite (Cauchy A B) 0 (A_len + B_len - 1) P)"
proof -
  let ?c = "Cauchy A B"
  let ?P1 = "overwrite ?c 0 (length A) P"
  let ?P2 = "overwrite ?c 0 (length B) P"
  have len: "1 \<le> length A" "length A \<le> length B" "length A \<le> length P" "length B \<le> length P"
    "length A + length B - 1 \<le> length P"
    using assms by simp_all
  have deg: "size_sub (length A) 1 = length A - 1" "size_sub (length B) 1 = length B - 1"
    "length A - 1 + 1 = length A" "length B - 1 + 1 = length B"
    using len(1,2) by simp_all
  have p1: "Product_part1 P A B 0 (length A - 1) = Inr ?P1"
    using len(1-3) by (rule Product_part1_Cauchy)
  have "Product_part2 ?P1 A B (length A) (length A - 1) (length B - 1)
      = Inr (overwrite ?c (length A) (length B) ?P1)"
    by (rule Product_part2_Cauchy) (use len in simp_all)
  then have p2: "Product_part2 ?P1 A B (length A) (length A - 1) (length B - 1) = Inr ?P2"
    using len(2) by (simp add: overwrite_overwrite)
  have "Product_part3 ?P2 A B (length B) (length A - 1) (length B - 1)
      = Inr (overwrite ?c (length B) (length A + length B - 1) ?P2)"
    by (rule Product_part3_Cauchy) (use len in simp_all)
  then have p3: "Product_part3 ?P2 A B (length B) (length A - 1) (length B - 1)
      = Inr (overwrite ?c 0 (length A + length B - 1) P)"
    using len(1) by (simp add: overwrite_overwrite)
  have "Naive_Product P A (length A) B (length B)
      = Inr (overwrite ?c 0 (length A + length B - 1) P)"
    unfolding Naive_Product_def Let_def by (simp only: deg p1 p2 p3 ebind_Inr)
  then show ?thesis using assms(1,2) by simp
qed

text \<open>
  With the longer operand first, the first part reaches \<open>n = B_len\<close> and reads
  \<^verbatim>\<open>B_coeffs[n]\<close> past the end of \<open>B\<close>.
\<close>

lemma Product_part1_overrun:
  assumes "n \<le> length B" and "length B \<le> A_deg"
  shows "Product_part1 P A B n A_deg = Inl OutOfBounds"
  using assms(1)
proof (induction "length B - n" arbitrary: n P)
  case 0
  then have n: "n \<le> A_deg" "length B \<le> n" using assms(2) by simp_all
  have "Product_assign P A B n 0 n = Inl OutOfBounds"
    unfolding Product_assign_def by (rule ebind_fails) (use n(2) in simp)
  then show ?case
    by (subst Product_part1.simps) (use n(1) in simp)
next
  case (Suc k)
  then have n: "n \<le> A_deg" using assms(2) by simp
  have ih: "\<And>P2. Product_part1 P2 A B (n + 1) A_deg = Inl OutOfBounds"
    by (rule Suc.hyps(1)) (use Suc.hyps(2) in simp_all)
  have "ebind (Product_assign P A B n 0 n) (\<lambda>P1.
      ebind (Product_inner P1 A B n 1 n) (\<lambda>P2. Product_part1 P2 A B (n + 1) A_deg))
        = Inl OutOfBounds"
    by (rule ebind_fails, rule ebind_fails, rule ih)
  then show ?case
    by (subst Product_part1.simps) (simp only: n if_True)
qed

lemma Naive_Product_overrun:
  assumes "length B = B_len" and "1 \<le> B_len" and "B_len < A_len"
  shows "Naive_Product P A A_len B B_len = Inl OutOfBounds"
proof -
  have "size_sub A_len 1 = A_len - 1" using assms by simp
  moreover have "Product_part1 P A B 0 (A_len - 1) = Inl OutOfBounds"
    by (rule Product_part1_overrun) (use assms in simp_all)
  ultimately show ?thesis
    unfolding Naive_Product_def Let_def by (simp only: ebind_Inl)
qed


section \<open>Naive_AddTo_Sum_Product against the Cauchy product of the sum\<close>

text \<open>
  Reading \<^verbatim>\<open>A0_coeffs[m] + A1_coeffs[m]\<close> from two arrays of one length is reading
  index \<open>m\<close> of their pointwise sum, so the inner loop and the second and third parts
  are those of \<open>Naive_Product\<close> on \<open>map2 (+) A0 A1\<close>. The first part differs: it
  adds every term, the first one too, into what the buffer holds.
\<close>

lemma load_sum:
  assumes "length A0 = length A1"
  shows "ebind (load A0 i) (\<lambda>a0. ebind (load A1 i) (\<lambda>a1. f (a0 + a1)))
       = ebind (load (map2 (+) A0 A1) i) f"
  using assms by (simp add: load_def)

lemma Sum_Product_assign_eq:
  assumes "length A0 = length A1"
  shows "Sum_Product_assign P A0 A1 B n i j = Product_assign P (map2 (+) A0 A1) B n i j"
  unfolding Sum_Product_assign_def Product_assign_def
  by (rule load_sum [OF assms])

lemma Sum_Product_inner_eq:
  assumes "length A0 = length A1"
  shows "Sum_Product_inner P A0 A1 B n m hi = Product_inner P (map2 (+) A0 A1) B n m hi"
proof (induction "Suc hi - m" arbitrary: m P)
  case 0
  then show ?case
    by (subst Sum_Product_inner.simps, subst Product_inner.simps) simp
next
  case (Suc k)
  then have k: "\<And>P1. Sum_Product_inner P1 A0 A1 B n (m + 1) hi
      = Product_inner P1 (map2 (+) A0 A1) B n (m + 1) hi"
    by simp
  show ?case
    by (subst Sum_Product_inner.simps, subst Product_inner.simps)
      (use k assms in \<open>simp add: load_def\<close>)
qed

lemma Sum_Product_part2_eq:
  assumes "length A0 = length A1"
  shows "Sum_Product_part2 P A0 A1 B n A_deg B_deg
       = Product_part2 P (map2 (+) A0 A1) B n A_deg B_deg"
proof (induction "Suc B_deg - n" arbitrary: n P)
  case 0
  then show ?case
    by (subst Sum_Product_part2.simps, subst Product_part2.simps) simp
next
  case (Suc k)
  then have k: "\<And>P2. Sum_Product_part2 P2 A0 A1 B (n + 1) A_deg B_deg
      = Product_part2 P2 (map2 (+) A0 A1) B (n + 1) A_deg B_deg"
    by simp
  show ?case
    by (subst Sum_Product_part2.simps, subst Product_part2.simps)
      (use k in \<open>simp add: Sum_Product_assign_eq [OF assms] Sum_Product_inner_eq [OF assms]\<close>)
qed

lemma Sum_Product_part3_eq:
  assumes "length A0 = length A1"
  shows "Sum_Product_part3 P A0 A1 B n A_deg B_deg
       = Product_part3 P (map2 (+) A0 A1) B n A_deg B_deg"
proof (induction "Suc (A_deg + B_deg) - n" arbitrary: n P)
  case 0
  then show ?case
    by (subst Sum_Product_part3.simps, subst Product_part3.simps) simp
next
  case (Suc k)
  then have k: "\<And>P2. Sum_Product_part3 P2 A0 A1 B (n + 1) A_deg B_deg
      = Product_part3 P2 (map2 (+) A0 A1) B (n + 1) A_deg B_deg"
    by simp
  show ?case
    by (subst Sum_Product_part3.simps, subst Product_part3.simps)
      (use k in \<open>simp add: Sum_Product_assign_eq [OF assms] Sum_Product_inner_eq [OF assms]\<close>)
qed

lemma Sum_Product_part1_Cauchy:
  assumes "length A0 = length A1" and "1 \<le> length A0" and "length A0 \<le> length B"
    and "length A0 \<le> length P"
  shows "Sum_Product_part1 P A0 A1 B n (length A0 - 1)
       = Inr (overwrite (\<lambda>k. P ! k + Cauchy (map2 (+) A0 A1) B k) n (length A0) P)"
  using assms(4)
proof (induction "length A0 - n" arbitrary: n P)
  case 0
  then have "\<not> n \<le> length A0 - 1" using assms(2) by simp
  then show ?case using 0 by (subst Sum_Product_part1.simps) (simp add: overwrite_empty)
next
  case (Suc k)
  let ?S = "map2 (+) A0 A1"
  have S: "length ?S = length A0" using assms(1) by simp
  from Suc have n: "n < length A0" by simp
  then have nle: "n \<le> length A0 - 1" by arith
  have c: "Cauchy ?S B n = (\<Sum>i = 0..n. ?S ! i * B ! (n - i))"
    using Cauchy_band [of ?S B n] assms(1-3) n by (simp add: min_def)
  have "Product_inner P ?S B n 0 n = Inr (P[n := P ! n + (\<Sum>i = 0..n. ?S ! i * B ! (n - i))])"
    by (rule Product_inner_sum) (use n assms(3) Suc.prems S in auto)
  then have body: "Sum_Product_inner P A0 A1 B n 0 n = Inr (P[n := P ! n + Cauchy ?S B n])"
    by (simp only: c Sum_Product_inner_eq [OF assms(1)])
  let ?P1 = "P[n := P ! n + Cauchy ?S B n]"
  have "Sum_Product_part1 P A0 A1 B n (length A0 - 1)
      = ebind (Sum_Product_inner P A0 A1 B n 0 n) (\<lambda>P1. Sum_Product_part1 P1 A0 A1 B (n + 1) (length A0 - 1))"
    by (subst Sum_Product_part1.simps) (use nle in simp)
  also have "\<dots> = Sum_Product_part1 ?P1 A0 A1 B (n + 1) (length A0 - 1)"
    by (simp only: body ebind_Inr)
  also have "\<dots> = Inr (overwrite (\<lambda>k. ?P1 ! k + Cauchy ?S B k) (n + 1) (length A0) ?P1)"
    by (rule Suc.hyps(1)) (use Suc.hyps(2) Suc.prems in simp_all)
  also have "overwrite (\<lambda>k. ?P1 ! k + Cauchy ?S B k) (n + 1) (length A0) ?P1
      = overwrite (\<lambda>k. P ! k + Cauchy ?S B k) n (length A0) P"
    using n Suc.prems by (intro nth_equalityI) (auto simp: nth_list_update)
  finally show ?case .
qed

lemma Naive_AddTo_Sum_Product_overwrite:
  assumes "length A0 = A_len" and "length A1 = A_len" and "length B = B_len"
    and "1 \<le> A_len" and "A_len \<le> B_len" and "A_len + B_len - 1 \<le> length P"
  shows "Naive_AddTo_Sum_Product P A0 A1 A_len B B_len
       = Inr (overwrite (Cauchy (map2 (+) A0 A1) B) A_len (A_len + B_len - 1)
               (overwrite (\<lambda>k. P ! k + Cauchy (map2 (+) A0 A1) B k) 0 A_len P))"
proof -
  let ?S = "map2 (+) A0 A1"
  let ?c = "Cauchy ?S B"
  let ?P1 = "overwrite (\<lambda>k. P ! k + ?c k) 0 (length ?S) P"
  let ?P2 = "overwrite ?c (length ?S) (length B) ?P1"
  have eq: "length A0 = length A1" using assms(1,2) by simp
  have S: "length ?S = A_len" "length A0 = length ?S" using assms(1,2) by simp_all
  have len: "1 \<le> length ?S" "length ?S \<le> length B" "length ?S \<le> length P"
    "length B \<le> length P" "length ?S + length B - 1 \<le> length P"
    unfolding S(1) using assms by simp_all
  have deg: "size_sub A_len 1 = length ?S - 1" "size_sub B_len 1 = length B - 1"
    "length ?S - 1 + 1 = length ?S" "length B - 1 + 1 = length B"
    unfolding S(1) using assms by simp_all
  have "Sum_Product_part1 P A0 A1 B 0 (length A0 - 1)
      = Inr (overwrite (\<lambda>k. P ! k + ?c k) 0 (length A0) P)"
    by (rule Sum_Product_part1_Cauchy) (use assms in simp_all)
  then have p1: "Sum_Product_part1 P A0 A1 B 0 (length ?S - 1) = Inr ?P1"
    unfolding S(2) .
  have "Product_part2 ?P1 ?S B (length ?S) (length ?S - 1) (length B - 1) = Inr ?P2"
    by (rule Product_part2_Cauchy) (use len in simp_all)
  then have p2: "Sum_Product_part2 ?P1 A0 A1 B (length ?S) (length ?S - 1) (length B - 1) = Inr ?P2"
    by (simp only: Sum_Product_part2_eq [OF eq])
  have "Product_part3 ?P2 ?S B (length B) (length ?S - 1) (length B - 1)
      = Inr (overwrite ?c (length B) (length ?S + length B - 1) ?P2)"
    by (rule Product_part3_Cauchy) (use len in simp_all)
  then have "Product_part3 ?P2 ?S B (length B) (length ?S - 1) (length B - 1)
      = Inr (overwrite ?c (length ?S) (length ?S + length B - 1) ?P1)"
    using len(1,2) by (simp add: overwrite_overwrite del: length_map length_zip)
  then have p3: "Sum_Product_part3 ?P2 A0 A1 B (length B) (length ?S - 1) (length B - 1)
      = Inr (overwrite ?c (length ?S) (length ?S + length B - 1) ?P1)"
    by (simp only: Sum_Product_part3_eq [OF eq])
  have "Naive_AddTo_Sum_Product P A0 A1 A_len B B_len
      = Inr (overwrite ?c (length ?S) (length ?S + length B - 1) ?P1)"
    unfolding Naive_AddTo_Sum_Product_def Let_def by (simp only: deg p1 p2 p3 ebind_Inr)
  then show ?thesis unfolding S(1) assms(3) .
qed


section \<open>Scaled_AddTo adds the scaled array\<close>

lemma Scaled_AddTo_loop_overwrite:
  assumes "len \<le> length A" and "len \<le> length P"
  shows "Scaled_AddTo_loop P A n len c = Inr (overwrite (\<lambda>k. P ! k + c * A ! k) n len P)"
  using assms(2)
proof (induction "len - n" arbitrary: n P)
  case 0
  then show ?case by (subst Scaled_AddTo_loop.simps) (simp add: overwrite_empty)
next
  case (Suc k)
  then have n: "n < len" by simp
  let ?P1 = "P[n := P ! n + c * A ! n]"
  have "Scaled_AddTo_loop P A n len c = Scaled_AddTo_loop ?P1 A (n + 1) len c"
    by (subst Scaled_AddTo_loop.simps) (use n assms(1) Suc.prems in simp)
  also have "\<dots> = Inr (overwrite (\<lambda>k. ?P1 ! k + c * A ! k) (n + 1) len ?P1)"
    by (rule Suc.hyps(1)) (use Suc.hyps(2) Suc.prems in simp_all)
  also have "overwrite (\<lambda>k. ?P1 ! k + c * A ! k) (n + 1) len ?P1
      = overwrite (\<lambda>k. P ! k + c * A ! k) n len P"
    using n Suc.prems by (intro nth_equalityI) (auto simp: nth_list_update)
  finally show ?case .
qed


text \<open>
  One call on a single array for both pointers does what the call on two copies of that
  array does: index \<open>n\<close> is read before it is written, and no later iteration reads it.
\<close>

lemma Scaled_AddTo_same_loop_eq:
  assumes "length A = length P" and "\<And>k. n \<le> k \<Longrightarrow> k < length P \<Longrightarrow> A ! k = P ! k"
  shows "Scaled_AddTo_same_loop P n len c = Scaled_AddTo_loop P A n len c"
  using assms
proof (induction "len - n" arbitrary: n P)
  case 0
  then show ?case
    by (subst Scaled_AddTo_same_loop.simps, subst Scaled_AddTo_loop.simps) simp
next
  case (Suc k)
  then have n: "n < len" by simp
  show ?case
  proof (cases "n < length P")
    case False
    then show ?thesis
      by (subst Scaled_AddTo_same_loop.simps, subst Scaled_AddTo_loop.simps) simp
  next
    case True
    let ?P1 = "P[n := P ! n + c * P ! n]"
    have a: "A ! n = P ! n" using Suc.prems(2) [of n] True by simp
    have "Scaled_AddTo_same_loop ?P1 (n + 1) len c = Scaled_AddTo_loop ?P1 A (n + 1) len c"
      by (rule Suc.hyps(1)) (use Suc.hyps(2) Suc.prems in simp_all)
    moreover have "Scaled_AddTo_same_loop P n len c = Scaled_AddTo_same_loop ?P1 (n + 1) len c"
      by (subst Scaled_AddTo_same_loop.simps) (use n True in simp)
    moreover have "Scaled_AddTo_loop P A n len c = Scaled_AddTo_loop ?P1 A (n + 1) len c"
      by (subst Scaled_AddTo_loop.simps) (use n True a Suc.prems(1) in simp)
    ultimately show ?thesis by simp
  qed
qed

lemma Scaled_AddTo_same_eq: "Scaled_AddTo_same P len c = Scaled_AddTo P P len c"
  unfolding Scaled_AddTo_same_def Scaled_AddTo_def
  by (rule Scaled_AddTo_same_loop_eq) simp_all


section \<open>The claims\<close>

text \<open>
  C1. The claim: for \<open>A0\<close>, \<open>A1\<close> of length \<open>A_len \<ge> 1\<close> and \<open>B\<close> of length
  \<open>B_len \<ge> A_len\<close>, \<open>Naive_AddTo_Sum_Product\<close> leaves at every index
  \<open>n < A_len + B_len - 1\<close> the initial \<open>P[n]\<close> plus the convolution sum of \<open>A0 + A1\<close> and
  \<open>B\<close>. The source adds in its first part only; its second and third parts open each
  index with \<^verbatim>\<open>P_coeffs[n] = ...\<close> and lose the initial entry. At \<open>P = [5, 5]\<close>,
  \<open>A0 = [1]\<close>, \<open>A1 = [0]\<close>, \<open>B = [1, 1]\<close> the run returns \<open>[6, 1]\<close>, where the claim
  gives \<open>5 + 1 = 6\<close> at index 1.
\<close>

theorem Naive_AddTo_Sum_Product_assigns:
  "Naive_AddTo_Sum_Product [5, 5] [1] [0] 1 [1, 1] 2 = Inr [6, 1]
   \<and> [5, 5] ! 1 + Cauchy (map2 (+) [1] [0]) [1, 1] 1 = (6 :: cint)"
  by (simp add: Naive_AddTo_Sum_Product_def Sum_Product_part1.simps Sum_Product_part2.simps
      Sum_Product_part3.simps Sum_Product_inner.simps Sum_Product_assign_def size_sub_def
      Cauchy_def)

text \<open>
  C2. For \<open>A\<close> of length \<open>A_len \<ge> 1\<close> and \<open>B\<close> of length \<open>B_len \<ge> A_len\<close>,
  \<open>Naive_Product\<close> returns, and the output buffer then holds at every index
  \<open>n < A_len + B_len - 1\<close> the convolution sum \<open>Cauchy A B n\<close> (in wrapping 32-bit
  arithmetic), whatever the buffer held before. Exactly these \<open>A_len + B_len - 1\<close>
  entries are written: the buffer keeps its length and its later entries.
\<close>

theorem Naive_Product_Cauchy:
  assumes "length A = A_len" and "length B = B_len" and "1 \<le> A_len" and "A_len \<le> B_len"
    and "A_len + B_len - 1 \<le> length P"
  shows "\<exists>Q. Naive_Product P A A_len B B_len = Inr Q \<and> length Q = length P
           \<and> (\<forall>n<A_len + B_len - 1. Q ! n = Cauchy A B n)
           \<and> (\<forall>n. A_len + B_len - 1 \<le> n \<and> n < length P \<longrightarrow> Q ! n = P ! n)"
proof -
  let ?Q = "overwrite (Cauchy A B) 0 (A_len + B_len - 1) P"
  have "Naive_Product P A A_len B B_len = Inr ?Q"
    using assms by (rule Naive_Product_overwrite)
  moreover have "length ?Q = length P" by simp
  moreover have "\<forall>n<A_len + B_len - 1. ?Q ! n = Cauchy A B n"
    using assms(5) by simp
  moreover have "\<forall>n. A_len + B_len - 1 \<le> n \<and> n < length P \<longrightarrow> ?Q ! n = P ! n"
    by simp
  ultimately show ?thesis by blast
qed

theorem Naive_Product_Cauchy_witness:
  "\<exists>Q. Naive_Product [9, 9, 9, 9, 9] [1, 2] 2 [1, 1, 1] 3 = Inr Q
      \<and> length Q = length [9, 9, 9, 9, 9 :: cint]
      \<and> (\<forall>n<4. Q ! n = Cauchy [1, 2] [1, 1, 1] n)
      \<and> (\<forall>n. 4 \<le> n \<and> n < length [9, 9, 9, 9, 9 :: cint] \<longrightarrow> Q ! n = [9, 9, 9, 9, 9] ! n)"
  using Naive_Product_Cauchy [of "[1, 2]" 2 "[1, 1, 1]" 3 "[9, 9, 9, 9, 9]"] by simp

text \<open>
  C5. For \<open>A = [1, 2]\<close> and \<open>B = [3, 4, 5]\<close>, \<open>Naive_Product\<close> yields the output buffer
  \<open>[3, 10, 13, 10]\<close>, from any four initial entries.
\<close>

text \<open>
  C3. For \<open>1 \<le> A_len \<le> B_len\<close>, with \<open>A\<close>, \<open>A0\<close>, \<open>A1\<close> of length \<open>A_len\<close> and \<open>B\<close> of
  length \<open>B_len\<close>, every access of \<open>Naive_Product\<close> and of \<open>Naive_AddTo_Sum_Product\<close> is
  in range: the runs return \<open>Inr\<close> on input arrays of exactly these lengths and on the
  output buffer cut to its first \<open>A_len + B_len - 1\<close> entries, so no index beyond
  \<open>A_len - 1\<close>, \<open>B_len - 1\<close> and \<open>A_len + B_len - 2\<close> is touched; and on a longer output
  buffer the run returns the same entries followed by the untouched rest of the buffer.
\<close>

theorem sweeps_in_range:
  assumes "length A = A_len" and "length A0 = A_len" and "length A1 = A_len"
    and "length B = B_len" and "1 \<le> A_len" and "A_len \<le> B_len"
    and "A_len + B_len - 1 \<le> length P"
  shows "(\<exists>Q. Naive_Product (take (A_len + B_len - 1) P) A A_len B B_len = Inr Q
            \<and> length Q = A_len + B_len - 1
            \<and> Naive_Product P A A_len B B_len = Inr (Q @ drop (A_len + B_len - 1) P))
       \<and> (\<exists>Q. Naive_AddTo_Sum_Product (take (A_len + B_len - 1) P) A0 A1 A_len B B_len = Inr Q
            \<and> length Q = A_len + B_len - 1
            \<and> Naive_AddTo_Sum_Product P A0 A1 A_len B B_len = Inr (Q @ drop (A_len + B_len - 1) P))"
proof -
  let ?N = "A_len + B_len - 1"
  let ?T = "take ?N P"
  have T: "length ?T = ?N" "?N \<le> length ?T" using assms(7) by simp_all
  have AN: "A_len \<le> ?N" using assms(5,6) by simp
  let ?c = "Cauchy A B"
  let ?Q = "overwrite ?c 0 ?N ?T"
  have "Naive_Product ?T A A_len B B_len = Inr ?Q"
    using assms(1,4,5,6) T(2) by (rule Naive_Product_overwrite)
  moreover have "length ?Q = ?N" using T(1) by simp
  moreover have "Naive_Product P A A_len B B_len = Inr (?Q @ drop ?N P)"
    using Naive_Product_overwrite [OF assms(1,4,5,6,7)] assms(7)
    by (simp add: overwrite_take)
  ultimately have product: "\<exists>Q. Naive_Product ?T A A_len B B_len = Inr Q \<and> length Q = ?N
      \<and> Naive_Product P A A_len B B_len = Inr (Q @ drop ?N P)"
    by blast
  let ?s = "Cauchy (map2 (+) A0 A1) B"
  let ?R = "overwrite ?s A_len ?N (overwrite (\<lambda>k. ?T ! k + ?s k) 0 A_len ?T)"
  have "Naive_AddTo_Sum_Product ?T A0 A1 A_len B B_len = Inr ?R"
    using assms(2,3,4,5,6) T(2) by (rule Naive_AddTo_Sum_Product_overwrite)
  moreover have "length ?R = ?N" using T(1) by simp
  moreover have "?R @ drop ?N P
      = overwrite ?s A_len ?N (overwrite (\<lambda>k. P ! k + ?s k) 0 A_len P)"
    using assms(7) AN by (intro nth_equalityI) (auto simp: nth_append)
  then have "Naive_AddTo_Sum_Product P A0 A1 A_len B B_len = Inr (?R @ drop ?N P)"
    using Naive_AddTo_Sum_Product_overwrite [OF assms(2,3,4,5,6,7)] by simp
  ultimately have sum_product:
    "\<exists>Q. Naive_AddTo_Sum_Product ?T A0 A1 A_len B B_len = Inr Q \<and> length Q = ?N
      \<and> Naive_AddTo_Sum_Product P A0 A1 A_len B B_len = Inr (Q @ drop ?N P)"
    by blast
  from product sum_product show ?thesis by (rule conjI)
qed

theorem sweeps_in_range_witness:
  "(\<exists>Q. Naive_Product (take (2 + 3 - 1) [7, 7, 7, 7, 8, 9]) [1, 2] 2 [3, 4, 5] 3 = Inr Q
        \<and> length Q = 2 + 3 - 1
        \<and> Naive_Product [7, 7, 7, 7, 8, 9] [1, 2] 2 [3, 4, 5] 3
            = Inr (Q @ drop (2 + 3 - 1) [7, 7, 7, 7, 8, 9]))
   \<and> (\<exists>Q. Naive_AddTo_Sum_Product (take (2 + 3 - 1) [7, 7, 7, 7, 8, 9]) [1, 0] [0, 2] 2 [3, 4, 5] 3 = Inr Q
        \<and> length Q = 2 + 3 - 1
        \<and> Naive_AddTo_Sum_Product [7, 7, 7, 7, 8, 9] [1, 0] [0, 2] 2 [3, 4, 5] 3
            = Inr (Q @ drop (2 + 3 - 1) [7, 7, 7, 7, 8, 9]))"
  using sweeps_in_range [of "[1, 2]" 2 "[1, 0]" "[0, 2]" "[3, 4, 5]" 3 "[7, 7, 7, 7, 8, 9]"]
  by simp

text \<open>
  C4. The claim: for \<open>A0 = [1, 1]\<close>, \<open>A1 = [2, 0]\<close>, \<open>B = [1, 0, 1]\<close> and the output
  buffer \<open>[0, 0, 0, 0]\<close>, \<open>Naive_AddTo_Sum_Product\<close> yields \<open>[3, 3, 3, 3]\<close>. It does not.
\<close>

theorem Naive_AddTo_Sum_Product_scenario_counterexample:
  "Naive_AddTo_Sum_Product [0, 0, 0, 0] [1, 1] [2, 0] 2 [1, 0, 1] 3 \<noteq> Inr [3, 3, 3, 3]"
  by (simp add: Naive_AddTo_Sum_Product_def Sum_Product_part1.simps Sum_Product_part2.simps
      Sum_Product_part3.simps Sum_Product_inner.simps Sum_Product_assign_def size_sub_def)

text \<open>
  C4, amended. For \<open>A0 = [1, 1]\<close>, \<open>A1 = [2, 0]\<close>, \<open>B = [1, 0, 1]\<close> and the output buffer
  \<open>[0, 0, 0, 0]\<close>, \<open>Naive_AddTo_Sum_Product\<close> yields \<open>[3, 1, 3, 1]\<close>, the product of
  \<open>3 + x\<close> and \<open>1 + x\<^sup>2\<close>.
\<close>

theorem Naive_AddTo_Sum_Product_scenario:
  "Naive_AddTo_Sum_Product [0, 0, 0, 0] [1, 1] [2, 0] 2 [1, 0, 1] 3 = Inr [3, 1, 3, 1]"
  by (simp add: Naive_AddTo_Sum_Product_def Sum_Product_part1.simps Sum_Product_part2.simps
      Sum_Product_part3.simps Sum_Product_inner.simps Sum_Product_assign_def size_sub_def)

text \<open>
  C5. For \<open>A = [1, 2]\<close> and \<open>B = [3, 4, 5]\<close>, \<open>Naive_Product\<close> yields the output buffer
  \<open>[3, 10, 13, 10]\<close>, from any four initial entries.
\<close>

theorem Naive_Product_scenario:
  "Naive_Product [p0, p1, p2, p3] [1, 2] 2 [3, 4, 5] 3 = Inr [3, 10, 13, 10]"
  by (simp add: Naive_Product_def Product_part1.simps Product_part2.simps Product_part3.simps
      Product_inner.simps Product_assign_def size_sub_def)

text \<open>
  C10. For \<open>1 \<le> A_len \<le> B_len\<close>, the output of \<open>Naive_Product\<close> does not depend on the
  initial contents of the output buffer: from any two initial buffers the runs return
  buffers that agree at every index \<open>n < A_len + B_len - 1\<close>.
\<close>

text \<open>
  C6. The claim: for \<open>A\<close> and \<open>B\<close> of lengths at least 1 in either order,
  \<open>Naive_Product (P, A, A_len, B, B_len)\<close> and \<open>Naive_Product (P, B, B_len, A, A_len)\<close>
  produce the same output, so that a call with the longer operand first is still
  correct. With \<open>A = [1, 2]\<close> and \<open>B = [3]\<close> the call with \<open>A\<close> first reads
  \<^verbatim>\<open>B_coeffs[1]\<close>, past the end of \<open>B\<close>, and the call with \<open>B\<close> first returns \<open>[3, 6]\<close>.
\<close>

theorem Naive_Product_longer_first_counterexample:
  "Naive_Product [0, 0] [1, 2] 2 [3] 1 = Inl OutOfBounds
   \<and> Naive_Product [0, 0] [3] 1 [1, 2] 2 = Inr [3, 6]"
  by (simp add: Naive_Product_def Product_part1.simps Product_part2.simps Product_part3.simps
      Product_inner.simps Product_assign_def size_sub_def)

text \<open>
  C6, amended. For \<open>A\<close> and \<open>B\<close> of lengths at least 1 and an output buffer of at least
  \<open>A_len + B_len - 1\<close> entries: when \<open>A_len \<le> B_len\<close>, \<open>Naive_Product (P, A, A_len, B, B_len)\<close>
  returns the Cauchy product, which is the same for both orders of the operands
  (\<open>Cauchy A B n = Cauchy B A n\<close>); when \<open>A_len = B_len\<close> the calls in the two orders return
  the same buffer; when \<open>B_len < A_len\<close> the call reads \<open>B\<close> out of range and returns no
  buffer.
\<close>

theorem Naive_Product_commute:
  assumes "length A = A_len" and "length B = B_len" and "1 \<le> A_len" and "1 \<le> B_len"
    and "A_len + B_len - 1 \<le> length P"
  shows "(A_len \<le> B_len \<longrightarrow>
            (\<exists>Q. Naive_Product P A A_len B B_len = Inr Q
               \<and> (\<forall>n<A_len + B_len - 1. Q ! n = Cauchy A B n \<and> Cauchy A B n = Cauchy B A n)))
       \<and> (A_len = B_len \<longrightarrow> Naive_Product P A A_len B B_len = Naive_Product P B B_len A A_len)
       \<and> (B_len < A_len \<longrightarrow> Naive_Product P A A_len B B_len = Inl OutOfBounds)"
proof (intro conjI impI)
  assume le: "A_len \<le> B_len"
  let ?Q = "overwrite (Cauchy A B) 0 (A_len + B_len - 1) P"
  have "Naive_Product P A A_len B B_len = Inr ?Q"
    using assms(1,2,3) le assms(5) by (rule Naive_Product_overwrite)
  moreover have "\<forall>n<A_len + B_len - 1. ?Q ! n = Cauchy A B n \<and> Cauchy A B n = Cauchy B A n"
    using assms(5) Cauchy_commute [of A B] by simp
  ultimately show "\<exists>Q. Naive_Product P A A_len B B_len = Inr Q
      \<and> (\<forall>n<A_len + B_len - 1. Q ! n = Cauchy A B n \<and> Cauchy A B n = Cauchy B A n)"
    by blast
next
  assume eq: "A_len = B_len"
  have "Naive_Product P A A_len B B_len = Inr (overwrite (Cauchy A B) 0 (A_len + B_len - 1) P)"
    by (rule Naive_Product_overwrite) (use assms eq in simp_all)
  moreover have "Naive_Product P B B_len A A_len
      = Inr (overwrite (Cauchy B A) 0 (B_len + A_len - 1) P)"
    by (rule Naive_Product_overwrite) (use assms eq in simp_all)
  moreover have "Cauchy B A = Cauchy A B"
    by (rule ext) (rule Cauchy_commute)
  ultimately show "Naive_Product P A A_len B B_len = Naive_Product P B B_len A A_len"
    by (simp add: add.commute)
next
  assume "B_len < A_len"
  with assms(2,4) show "Naive_Product P A A_len B B_len = Inl OutOfBounds"
    by (rule Naive_Product_overrun)
qed

theorem Naive_Product_commute_witness:
  "(\<exists>Q. Naive_Product [0, 0, 0] [1, 2] 2 [3, 4] 2 = Inr Q
       \<and> (\<forall>n<2 + 2 - 1. Q ! n = Cauchy [1, 2] [3, 4] n \<and> Cauchy [1, 2] [3, 4] n = Cauchy [3, 4] [1, 2] n))
   \<and> Naive_Product [0, 0, 0] [1, 2] 2 [3, 4] 2 = Naive_Product [0, 0, 0] [3, 4] 2 [1, 2] 2
   \<and> Naive_Product [0, 0] [1, 2] 2 [3] 1 = Inl OutOfBounds"
proof -
  have "(\<exists>Q. Naive_Product [0, 0, 0] [1, 2] 2 [3, 4] 2 = Inr Q
       \<and> (\<forall>n<2 + 2 - 1. Q ! n = Cauchy [1, 2] [3, 4] n \<and> Cauchy [1, 2] [3, 4] n = Cauchy [3, 4] [1, 2] n))
   \<and> Naive_Product [0, 0, 0] [1, 2] 2 [3, 4] 2 = Naive_Product [0, 0, 0] [3, 4] 2 [1, 2] 2"
    using Naive_Product_commute [of "[1, 2]" 2 "[3, 4]" 2 "[0, 0, 0]"] by (simp (no_asm_use))
  moreover have "Naive_Product [0, 0] [1, 2] 2 [3] 1 = Inl OutOfBounds"
    using Naive_Product_commute [of "[1, 2]" 2 "[3]" 1 "[0, 0]"] by simp
  ultimately show ?thesis by blast
qed

text \<open>
  C7. The claim: for \<open>1 \<le> A_len \<le> B_len\<close> and nonzero leading coefficients
  \<open>A[A_len - 1]\<close> and \<open>B[B_len - 1]\<close>, the last output coefficient
  \<open>P[A_len + B_len - 2]\<close> of \<open>Naive_Product\<close> is nonzero. In 32-bit wrapping arithmetic
  \<open>65536 * 65536 = 0\<close>.
\<close>

theorem Naive_Product_degree_counterexample:
  "[65536 :: cint] ! (1 - 1) \<noteq> 0 \<and> Naive_Product [1] [65536] 1 [65536] 1 = Inr [0]"
  by (simp add: Naive_Product_def Product_part1.simps Product_part2.simps Product_part3.simps
      Product_inner.simps Product_assign_def size_sub_def)

text \<open>
  C7, amended. For \<open>1 \<le> A_len \<le> B_len\<close>, the last output coefficient
  \<open>P[A_len + B_len - 2]\<close> of \<open>Naive_Product\<close> is the wrapped product
  \<open>A[A_len - 1] * B[B_len - 1]\<close> of the leading coefficients. It is zero exactly when the
  product of their signed values is a multiple of \<open>2 ^ 32\<close>, and nonzero otherwise.
\<close>

theorem Naive_Product_leading:
  assumes "length A = A_len" and "length B = B_len" and "1 \<le> A_len" and "A_len \<le> B_len"
    and "A_len + B_len - 1 \<le> length P"
  shows "\<exists>Q. Naive_Product P A A_len B B_len = Inr Q
           \<and> Q ! (A_len + B_len - 2) = A ! (A_len - 1) * B ! (B_len - 1)
           \<and> (Q ! (A_len + B_len - 2) = 0
                \<longleftrightarrow> 2 ^ 32 dvd sint (A ! (A_len - 1)) * sint (B ! (B_len - 1)))"
proof -
  let ?Q = "overwrite (Cauchy A B) 0 (A_len + B_len - 1) P"
  have run: "Naive_Product P A A_len B B_len = Inr ?Q"
    using assms by (rule Naive_Product_overwrite)
  have "A_len + B_len - 2 < A_len + B_len - 1" "A_len + B_len - 2 < length P"
    using assms(3,4,5) by arith+
  then have "?Q ! (A_len + B_len - 2) = Cauchy A B (A_len + B_len - 2)"
    by simp
  also have "\<dots> = A ! (A_len - 1) * B ! (B_len - 1)"
    using Cauchy_leading [of A B] assms(1-4) by simp
  finally have lead: "?Q ! (A_len + B_len - 2) = A ! (A_len - 1) * B ! (B_len - 1)" .
  then have "(?Q ! (A_len + B_len - 2) = 0)
      = (2 ^ 32 dvd sint (A ! (A_len - 1)) * sint (B ! (B_len - 1)))"
    by (simp only: cint_mult_eq_0_iff)
  with run lead show ?thesis by blast
qed

theorem Naive_Product_leading_witness:
  "\<exists>Q. Naive_Product [0, 0, 0, 0] [1, 2] 2 [3, 4, 5] 3 = Inr Q
      \<and> Q ! (2 + 3 - 2) = [1, 2] ! (2 - 1) * [3, 4, 5] ! (3 - 1)
      \<and> (Q ! (2 + 3 - 2) = 0
           \<longleftrightarrow> 2 ^ 32 dvd sint ([1, 2 :: cint] ! (2 - 1)) * sint ([3, 4, 5 :: cint] ! (3 - 1)))"
  using Naive_Product_leading [of "[1, 2]" 2 "[3, 4, 5]" 3 "[0, 0, 0, 0]"] by simp

text \<open>
  C8. For \<open>A\<close> of length \<open>len\<close>, an output buffer \<open>P\<close> of length at least \<open>len\<close> and any
  scalar \<open>c\<close>, \<open>Scaled_AddTo\<close> returns the buffer with \<open>c * A[n]\<close> added into \<open>P[n]\<close> for
  every \<open>n < len\<close> and every other entry unchanged. With \<open>len = 0\<close> the call returns
  the buffer as it was.
\<close>

theorem Scaled_AddTo_adds:
  assumes "length A = len" and "len \<le> length P"
  shows "(\<exists>Q. Scaled_AddTo P A len c = Inr Q \<and> length Q = length P
            \<and> (\<forall>n<len. Q ! n = P ! n + c * A ! n)
            \<and> (\<forall>n. len \<le> n \<and> n < length P \<longrightarrow> Q ! n = P ! n))
       \<and> Scaled_AddTo P' A' 0 c' = Inr P'"
proof -
  let ?Q = "overwrite (\<lambda>k. P ! k + c * A ! k) 0 len P"
  have "Scaled_AddTo P A len c = Inr ?Q"
    unfolding Scaled_AddTo_def using assms by (intro Scaled_AddTo_loop_overwrite) simp_all
  moreover have "length ?Q = length P" by simp
  moreover have "\<forall>n<len. ?Q ! n = P ! n + c * A ! n"
    using assms(2) by simp
  moreover have "\<forall>n. len \<le> n \<and> n < length P \<longrightarrow> ?Q ! n = P ! n"
    by simp
  moreover have "Scaled_AddTo P' A' 0 c' = Inr P'"
    unfolding Scaled_AddTo_def by (subst Scaled_AddTo_loop.simps) simp
  ultimately show ?thesis by blast
qed

theorem Scaled_AddTo_adds_witness:
  "(\<exists>Q. Scaled_AddTo [1, 2, 3] [10, 20] 2 3 = Inr Q \<and> length Q = length [1, 2, 3 :: cint]
       \<and> (\<forall>n<2. Q ! n = [1, 2, 3] ! n + 3 * [10, 20] ! n)
       \<and> (\<forall>n. 2 \<le> n \<and> n < length [1, 2, 3 :: cint] \<longrightarrow> Q ! n = [1, 2, 3] ! n))
   \<and> Scaled_AddTo [4, 5] [6] 0 7 = Inr [4, 5]"
  using Scaled_AddTo_adds [of "[10, 20]" 2 "[1, 2, 3]" 3 "[4, 5]" "[6]" 7] by simp

text \<open>
  C9. The claim: for every \<open>A\<close> of length \<open>len\<close>, every output buffer \<open>P\<close> of length at
  least \<open>len\<close> and all scalars \<open>c1\<close>, \<open>c2\<close>, \<open>Scaled_AddTo\<close> with \<open>c1\<close> followed by
  \<open>Scaled_AddTo\<close> with \<open>c2\<close> leaves \<open>P\<close> as one \<open>Scaled_AddTo\<close> with \<open>c1 + c2\<close> does. The
  output buffer may be the input buffer. With the one array \<open>[1]\<close> as both, \<open>len = 1\<close>
  and \<open>c1 = c2 = 1\<close>, the first call leaves \<open>[2]\<close>, the second call reads that entry and
  leaves \<open>[4]\<close>, and the single call with \<open>c1 + c2\<close> leaves \<open>[3]\<close>.
\<close>

theorem Scaled_AddTo_same_buffer_counterexample:
  "Scaled_AddTo_same [1] 1 1 = Inr [2]
   \<and> Scaled_AddTo_same [2] 1 1 = Inr [4]
   \<and> Scaled_AddTo_same [1] 1 (1 + 1) = Inr [3]"
  by (simp add: Scaled_AddTo_same_def Scaled_AddTo_same_loop.simps)

text \<open>
  C9, amended. For \<open>A\<close> of length \<open>len\<close>, an output buffer \<open>P\<close> of length at least \<open>len\<close>
  that does not overlap \<open>A\<close>, and scalars \<open>c1\<close>, \<open>c2\<close>, \<open>Scaled_AddTo\<close> with \<open>c1\<close> followed
  by \<open>Scaled_AddTo\<close> with \<open>c2\<close> on the same \<open>A\<close> returns the same buffer as one
  \<open>Scaled_AddTo\<close> with the wrapping sum \<open>c1 + c2\<close>.
\<close>

theorem Scaled_AddTo_linear:
  assumes "length A = len" and "len \<le> length P"
  shows "\<exists>Q1 Q. Scaled_AddTo P A len c1 = Inr Q1 \<and> Scaled_AddTo Q1 A len c2 = Inr Q
           \<and> Scaled_AddTo P A len (c1 + c2) = Inr Q"
proof -
  let ?Q1 = "overwrite (\<lambda>k. P ! k + c1 * A ! k) 0 len P"
  let ?Q = "overwrite (\<lambda>k. ?Q1 ! k + c2 * A ! k) 0 len ?Q1"
  have 1: "Scaled_AddTo P A len c1 = Inr ?Q1"
    unfolding Scaled_AddTo_def using assms by (intro Scaled_AddTo_loop_overwrite) simp_all
  have 2: "Scaled_AddTo ?Q1 A len c2 = Inr ?Q"
    unfolding Scaled_AddTo_def using assms by (intro Scaled_AddTo_loop_overwrite) simp_all
  have "Scaled_AddTo P A len (c1 + c2) = Inr (overwrite (\<lambda>k. P ! k + (c1 + c2) * A ! k) 0 len P)"
    unfolding Scaled_AddTo_def using assms by (intro Scaled_AddTo_loop_overwrite) simp_all
  also have "overwrite (\<lambda>k. P ! k + (c1 + c2) * A ! k) 0 len P = ?Q"
    by (intro nth_equalityI) (auto simp: distrib_right)
  finally show ?thesis using 1 2 by blast
qed

theorem Scaled_AddTo_linear_witness:
  "\<exists>Q1 Q. Scaled_AddTo [1, 2, 3] [10, 20] 2 4294967295 = Inr Q1 \<and> Scaled_AddTo Q1 [10, 20] 2 2 = Inr Q
      \<and> Scaled_AddTo [1, 2, 3] [10, 20] 2 (4294967295 + 2) = Inr Q"
  using Scaled_AddTo_linear [of "[10, 20]" 2 "[1, 2, 3]" 4294967295 2] by simp

text \<open>
  C10. For \<open>1 \<le> A_len \<le> B_len\<close>, the output of \<open>Naive_Product\<close> does not depend on the
  initial contents of the output buffer: from any two initial buffers the runs return
  buffers that agree at every index \<open>n < A_len + B_len - 1\<close>.
\<close>

theorem Naive_Product_initial_contents:
  assumes "length A = A_len" and "length B = B_len" and "1 \<le> A_len" and "A_len \<le> B_len"
    and "A_len + B_len - 1 \<le> length P" and "A_len + B_len - 1 \<le> length P'"
  shows "\<exists>Q Q'. Naive_Product P A A_len B B_len = Inr Q
           \<and> Naive_Product P' A A_len B B_len = Inr Q'
           \<and> (\<forall>n<A_len + B_len - 1. Q ! n = Q' ! n)"
proof -
  let ?Q = "overwrite (Cauchy A B) 0 (A_len + B_len - 1) P"
  let ?Q' = "overwrite (Cauchy A B) 0 (A_len + B_len - 1) P'"
  have "Naive_Product P A A_len B B_len = Inr ?Q"
    using assms(1-5) by (rule Naive_Product_overwrite)
  moreover have "Naive_Product P' A A_len B B_len = Inr ?Q'"
    using assms(1-4,6) by (rule Naive_Product_overwrite)
  moreover have "\<forall>n<A_len + B_len - 1. ?Q ! n = ?Q' ! n"
    using assms(5,6) by simp
  ultimately show ?thesis by blast
qed

theorem Naive_Product_initial_contents_witness:
  "\<exists>Q Q'. Naive_Product [1, 2, 3] [2, 3] 2 [4, 5] 2 = Inr Q
      \<and> Naive_Product [7, 7, 7, 7] [2, 3] 2 [4, 5] 2 = Inr Q'
      \<and> (\<forall>n<3. Q ! n = Q' ! n)"
  using Naive_Product_initial_contents [of "[2, 3]" 2 "[4, 5]" 2 "[1, 2, 3]" "[7, 7, 7, 7]"]
  by simp

end
